theory Spec2Isabelle
  imports Complex_Main
begin

section \<open>The map page of d3-demo: camera transform, name index, highlight and tour\<close>

text \<open>
  The development embeds the body of the effect in \<^verbatim>\<open>src/app/page.tsx\<close>: the name index
  \<^verbatim>\<open>byName\<close>, \<^verbatim>\<open>transformFor\<close>, \<^verbatim>\<open>highlight\<close>, \<^verbatim>\<open>drawLink\<close>, \<^verbatim>\<open>focus\<close>
  and the demo tour, together with the few d3 operations they call.
\<close>

subsection \<open>JavaScript numbers\<close>

text \<open>
  A JavaScript number is an IEEE-754 binary64 value: a finite number, one of the two
  zeros, one of the two infinities, or NaN. \<open>Fin 0\<close> is \<^verbatim>\<open>+0\<close> and \<open>NegZero\<close> is
  \<^verbatim>\<open>-0\<close>; every other finite double is \<open>Fin\<close> of the real number it denotes.
\<close>

datatype jsnum = Fin real | NegZero | PosInf | NegInf | NaN

text \<open>Rounding a real to the nearest integer, a tie going to the even one.\<close>

definition rhe :: "real \<Rightarrow> int" where
  "rhe x = (let n = \<lfloor>x\<rfloor>; d = x - of_int n
            in if d < 1 / 2 then n else if 1 / 2 < d then n + 1
               else if even n then n else n + 1)"

text \<open>
  The binary exponent of a positive real below \<open>2 ^ 1024\<close>, found by bisection: the
  \<open>e\<close> with \<open>2 ^ e \<le> a < 2 ^ (e + 1)\<close>, and \<open>- 1022\<close> for everything below
  \<open>2 ^ - 1022\<close> (the subnormal range).
\<close>

function bisect :: "int \<Rightarrow> int \<Rightarrow> real \<Rightarrow> int" where
  "bisect lo hi a =
     (if hi - lo \<le> 1 then lo
      else let mid = (lo + hi) div 2
           in if a < 2 powi mid then bisect lo mid a else bisect mid hi a)"
  by pat_completeness auto
termination
  by (relation "measure (\<lambda>(lo, hi, a). nat (hi - lo))") auto

declare bisect.simps [simp del]

definition expo :: "real \<Rightarrow> int" where
  "expo a = bisect (- 1022) 1024 a"

text \<open>
  Rounding a real to a double, to nearest with ties to even: the magnitude is rounded to a
  multiple of \<open>2 ^ (e - 52)\<close> for its exponent \<open>e\<close>, which keeps 53 significant bits
  (fewer in the subnormal range); from \<open>2 ^ 1024 - 2 ^ 970\<close> on, half way between the
  largest double and \<open>2 ^ 1024\<close>, the result is an infinity; a non-zero real that rounds
  to zero keeps its sign.
\<close>

definition fl :: "real \<Rightarrow> jsnum" where
  "fl x =
     (let a = \<bar>x\<bar>
      in if x = 0 then Fin 0
         else if 2 powi 1024 - 2 powi 970 \<le> a then (if 0 < x then PosInf else NegInf)
         else let q = 2 powi (expo a - 52);
                  r = of_int (rhe (a / q)) * q
              in if 0 < x then Fin r else if r = 0 then NegZero else Fin (- r))"

fun num_val :: "jsnum \<Rightarrow> real" where
  "num_val (Fin a) = a"
| "num_val _ = 0"

fun sign_bit :: "jsnum \<Rightarrow> bool" where
  "sign_bit (Fin a) = (a < 0)"
| "sign_bit NegZero = True"
| "sign_bit NegInf = True"
| "sign_bit _ = False"

fun is_inf :: "jsnum \<Rightarrow> bool" where
  "is_inf PosInf = True"
| "is_inf NegInf = True"
| "is_inf _ = False"

fun isFinite :: "jsnum \<Rightarrow> bool" where
  "isFinite (Fin _) = True"
| "isFinite NegZero = True"
| "isFinite _ = False"

definition signed_zero :: "bool \<Rightarrow> jsnum" where
  "signed_zero s = (if s then NegZero else Fin 0)"

definition signed_inf :: "bool \<Rightarrow> jsnum" where
  "signed_inf s = (if s then NegInf else PosInf)"

text \<open>
  The operations return the exact result rounded by \<open>fl\<close>, with the IEEE rules where no
  rounding applies: an exact zero sum is \<^verbatim>\<open>+0\<close> unless both terms are \<^verbatim>\<open>-0\<close>; a zero
  product or quotient has the exclusive or of the signs; opposite infinities add to NaN,
  zero times infinity is NaN; a non-zero number over a zero is the infinity of the combined
  sign, zero over zero is NaN. No operation raises. Subtraction is addition of the negation.
\<close>

fun jneg :: "jsnum \<Rightarrow> jsnum" where
  "jneg (Fin a) = (if a = 0 then NegZero else Fin (- a))"
| "jneg NegZero = Fin 0"
| "jneg PosInf = NegInf"
| "jneg NegInf = PosInf"
| "jneg NaN = NaN"

definition jadd :: "jsnum \<Rightarrow> jsnum \<Rightarrow> jsnum" where
  "jadd x y =
     (if x = NaN \<or> y = NaN then NaN
      else if is_inf x then (if is_inf y \<and> x \<noteq> y then NaN else x)
      else if is_inf y then y
      else let s = num_val x + num_val y
           in if s = 0 then (if x = NegZero \<and> y = NegZero then NegZero else Fin 0)
              else fl s)"

definition jsub :: "jsnum \<Rightarrow> jsnum \<Rightarrow> jsnum" where
  "jsub x y = jadd x (jneg y)"

definition jmul :: "jsnum \<Rightarrow> jsnum \<Rightarrow> jsnum" where
  "jmul x y =
     (if x = NaN \<or> y = NaN then NaN
      else if is_inf x \<or> is_inf y then
        (if (isFinite x \<and> num_val x = 0) \<or> (isFinite y \<and> num_val y = 0) then NaN
         else signed_inf (sign_bit x \<noteq> sign_bit y))
      else let p = num_val x * num_val y
           in if p = 0 then signed_zero (sign_bit x \<noteq> sign_bit y) else fl p)"

definition jdiv :: "jsnum \<Rightarrow> jsnum \<Rightarrow> jsnum" where
  "jdiv x y =
     (if x = NaN \<or> y = NaN then NaN
      else if is_inf x then
        (if is_inf y then NaN else signed_inf (sign_bit x \<noteq> sign_bit y))
      else if is_inf y then signed_zero (sign_bit x \<noteq> sign_bit y)
      else if num_val y = 0 then
        (if num_val x = 0 then NaN else signed_inf (sign_bit x \<noteq> sign_bit y))
      else if num_val x = 0 then signed_zero (sign_bit x \<noteq> sign_bit y)
      else fl (num_val x / num_val y))"

text \<open>
  The comparisons \<^verbatim>\<open><\<close>, \<^verbatim>\<open>>\<close> and \<^verbatim>\<open>===\<close>: false as soon as an operand is NaN, and
  the two zeros compare equal.
\<close>

fun jlt :: "jsnum \<Rightarrow> jsnum \<Rightarrow> bool" where
  "jlt NaN _ = False"
| "jlt _ NaN = False"
| "jlt _ NegInf = False"
| "jlt NegInf _ = True"
| "jlt PosInf _ = False"
| "jlt _ PosInf = True"
| "jlt x y = (num_val x < num_val y)"

definition jgt :: "jsnum \<Rightarrow> jsnum \<Rightarrow> bool" where
  "jgt a b = jlt b a"

definition jeq :: "jsnum \<Rightarrow> jsnum \<Rightarrow> bool" where
  "jeq x y =
     (x \<noteq> NaN \<and> y \<noteq> NaN \<and>
      (x = y \<or> (isFinite x \<and> num_val x = 0 \<and> isFinite y \<and> num_val y = 0)))"

text \<open>
  \<^verbatim>\<open>Math.min\<close> of two numbers: NaN if either is NaN, and \<^verbatim>\<open>-0\<close> is below \<^verbatim>\<open>+0\<close>.
\<close>

definition jmin :: "jsnum \<Rightarrow> jsnum \<Rightarrow> jsnum" where
  "jmin x y =
     (if x = NaN \<or> y = NaN then NaN
      else if jlt x y then x
      else if jlt y x then y
      else if x = NegZero then x else y)"

text \<open>
  The numbers that are doubles: a finite one is a double when rounding leaves it as it
  is. Every operation above returns a double when its operands are doubles.
\<close>

fun is_double :: "jsnum \<Rightarrow> bool" where
  "is_double (Fin a) = (fl a = Fin a)"
| "is_double _ = True"

subsection \<open>Features and the d3 values the page handles\<close>

text \<open>
  \<^verbatim>\<open>f.properties?.name\<close> is whatever the GeoJSON holds there: \<^verbatim>\<open>undefined\<close> when the
  properties or the name are missing, otherwise any JSON value.
\<close>

datatype js_value =
    JUndefined
  | JNull
  | JBool bool
  | JNumber jsnum
  | JString string
  | JObject

text \<open>
  A \<^verbatim>\<open>ProvinceFeature\<close>: the value of \<^verbatim>\<open>properties?.name\<close> and a geometry. The page
  never looks into the geometry; it hands it to d3, so its type is left open.
\<close>

record 'g feature =
  name :: js_value
  geometry :: 'g

type_synonym point = "jsnum \<times> jsnum"

text \<open>A bounding box \<^verbatim>\<open>[[x0, y0], [x1, y1]]\<close>, as \<^verbatim>\<open>path.bounds\<close> returns it.\<close>

type_synonym bbox = "point \<times> point"

text \<open>
  d3-zoom's \<^verbatim>\<open>Transform(k, x, y)\<close> with its two methods (library code, after
  d3-zoom's \<^verbatim>\<open>transform.js\<close>):
  \<^verbatim>\<open>scale: k === 1 ? this : new Transform(this.k * k, this.x, this.y)\<close> and
  \<^verbatim>\<open>translate: x === 0 & y === 0 ? this
     : new Transform(this.k, this.x + this.k * x, this.y + this.k * y)\<close>.
\<close>

datatype zoom_transform = Transform (tk: jsnum) (tx: jsnum) (ty: jsnum)

definition zoomIdentity :: zoom_transform where
  "zoomIdentity = Transform (Fin 1) (Fin 0) (Fin 0)"

fun scale :: "zoom_transform \<Rightarrow> jsnum \<Rightarrow> zoom_transform" where
  "scale (Transform k x y) c =
     (if jeq c (Fin 1) then Transform k x y else Transform (jmul k c) x y)"

fun translate :: "zoom_transform \<Rightarrow> jsnum \<Rightarrow> jsnum \<Rightarrow> zoom_transform" where
  "translate (Transform k x y) a b =
     (if jeq a (Fin 0) \<and> jeq b (Fin 0) then Transform k x y
      else Transform k (jadd x (jmul k a)) (jadd y (jmul k b)))"

subsection \<open>What the page takes from d3-geo\<close>

text \<open>
  \<^verbatim>\<open>path = d3.geoPath(projection)\<close> answers two questions about a feature: its screen
  bounding box and its screen centroid. Both are computed inside d3 from the geometry
  and are parameters of the model.
\<close>

record 'g geoPath =
  path_bounds :: "'g feature \<Rightarrow> bbox"
  path_centroid :: "'g feature \<Rightarrow> point"

text \<open>A projection, as far as fitting sets it: \<^verbatim>\<open>projection.scale(..).translate([x, y])\<close>.\<close>

record geo_projection =
  proj_scale :: jsnum
  proj_translate :: point

text \<open>
  Fitting (library code, after d3-geo's \<^verbatim>\<open>path/bounds.js\<close> and \<^verbatim>\<open>projection/fit.js\<close>).
  The collection is streamed through the projection at scale 150 and translation \<open>[0, 0]\<close>
  into a bounds stream, which starts at \<^verbatim>\<open>x0 = y0 = Infinity, x1 = y1 = -Infinity\<close> and
  widens the box at every point; from the resulting box \<open>b\<close>,
  \<^verbatim>\<open>k = Math.min(w / (b[1][0] - b[0][0]), h / (b[1][1] - b[0][1]))\<close>,
  \<^verbatim>\<open>x = +extent[0][0] + (w - k * (b[1][0] + b[0][0])) / 2\<close>, likewise \<open>y\<close>, and
  \<^verbatim>\<open>projection.scale(150 * k).translate([x, y])\<close>. No step of it raises.
\<close>

fun boundsPoint :: "bbox \<Rightarrow> point \<Rightarrow> bbox" where
  "boundsPoint ((x0, y0), (x1, y1)) (x, y) =
     ((if jlt x x0 then x else x0, if jlt y y0 then y else y0),
      (if jgt x x1 then x else x1, if jgt y y1 then y else y1))"

definition boundsStream :: "point list \<Rightarrow> bbox" where
  "boundsStream ps = foldl boundsPoint ((PosInf, PosInf), (NegInf, NegInf)) ps"

definition fitExtent :: "bbox \<Rightarrow> point list \<Rightarrow> geo_projection" where
  "fitExtent extent ps =
     (let ((e00, e01), (e10, e11)) = extent;
          ((b00, b01), (b10, b11)) = boundsStream ps;
          w = jsub e10 e00;
          h = jsub e11 e01;
          k = jmin (jdiv w (jsub b10 b00)) (jdiv h (jsub b11 b01));
          x = jadd e00 (jdiv (jsub w (jmul k (jadd b10 b00))) (Fin 2));
          y = jadd e01 (jdiv (jsub h (jmul k (jadd b11 b01))) (Fin 2))
      in \<lparr>proj_scale = jmul (Fin 150) k, proj_translate = (x, y)\<rparr>)"

definition fitSize :: "point \<Rightarrow> point list \<Rightarrow> geo_projection" where
  "fitSize sz ps = fitExtent ((Fin 0, Fin 0), sz) ps"

text \<open>
  The two d3 entry points that depend on the geometry: the points a geometry sends to
  the bounds stream under the reference projection, and the path built on a projection.
\<close>

record 'g d3 =
  geoStream :: "'g \<Rightarrow> point list"
  geoPath :: "geo_projection \<Rightarrow> 'g geoPath"

subsection \<open>The page\<close>

definition width :: real where
  "width = 960"

definition height :: real where
  "height = 600"

text \<open>
  \<^verbatim>\<open>const projection = d3.geoMercator().fitSize([width, height], china)\<close>; the collection
  is given by its \<^verbatim>\<open>features\<close> array.
\<close>

definition projection :: "'g d3 \<Rightarrow> 'g feature list \<Rightarrow> geo_projection" where
  "projection lib features =
     fitSize (Fin width, Fin height) (concat (map (\<lambda>f. geoStream lib (geometry f)) features))"

text \<open>
  The index: \<^verbatim>\<open>for (const f of features) { const n = f.properties?.name;
  if (typeof n === "string") byName.set(n, f); }\<close>. Strings are compared as their UTF-8
  bytes.
\<close>

fun byName_loop :: "(string \<rightharpoonup> 'g feature) \<Rightarrow> 'g feature list \<Rightarrow> (string \<rightharpoonup> 'g feature)" where
  "byName_loop m [] = m"
| "byName_loop m (f # fs) =
     byName_loop (case name f of JString n \<Rightarrow> m(n \<mapsto> f) | _ \<Rightarrow> m) fs"

definition byName :: "'g feature list \<Rightarrow> (string \<rightharpoonup> 'g feature)" where
  "byName features = byName_loop Map.empty features"

text \<open>
  \<^verbatim>\<open>transformFor(f, padding = 0.9)\<close>; an omitted padding is \<open>None\<close>, and the literal
  \<^verbatim>\<open>0.9\<close> is the double nearest to nine tenths.
\<close>

definition transformFor ::
  "'g geoPath \<Rightarrow> 'g feature \<Rightarrow> jsnum option \<Rightarrow> zoom_transform" where
  "transformFor path f padding_arg =
     (let padding = (case padding_arg of None \<Rightarrow> fl (9 / 10) | Some p \<Rightarrow> p);
          ((x0, y0), (x1, y1)) = path_bounds path f;
          dx = jsub x1 x0;
          dy = jsub y1 y0;
          k = jmul (jmin (jdiv (Fin width) dx) (jdiv (Fin height) dy)) padding;
          tx = jsub (jdiv (Fin width) (Fin 2)) (jmul (jdiv (jadd x0 x1) (Fin 2)) k);
          ty = jsub (jdiv (Fin height) (Fin 2)) (jmul (jdiv (jadd y0 y1) (Fin 2)) k)
      in scale (translate zoomIdentity tx ty) k)"

text \<open>
  The part of the document the page writes to: the fill of each province path (one per
  feature, in the order of \<^verbatim>\<open>features\<close>), the \<^verbatim>\<open>transform\<close> attribute of the scene group
  (absent at first), the link paths and endpoint circles of the links layer, and, in the
  order they happen, the writes and waits that move the camera. An attribute set takes
  effect at once; a transition is awaited until its end, when the attribute has the
  target value. The attribute holds the transform itself rather than its string.
\<close>

record link =
  link_from :: point
  link_to :: point
  link_duration :: jsnum

datatype camera_event =
    SetAttr zoom_transform
  | Delay jsnum
  | Transition jsnum zoom_transform

record scene_state =
  fills :: "string list"
  scene_transform :: "zoom_transform option"
  links :: "link list"
  circles :: "point list"
  timeline :: "camera_event list"

text \<open>
  \<^verbatim>\<open>d.properties?.name === activeName\<close> with \<^verbatim>\<open>activeName: string | null\<close>
  (\<open>None\<close> is \<^verbatim>\<open>null\<close>): strict equality, so only a string equals a string and only
  \<^verbatim>\<open>null\<close> equals \<^verbatim>\<open>null\<close>.
\<close>

fun name_is :: "js_value \<Rightarrow> string option \<Rightarrow> bool" where
  "name_is (JString n) (Some a) = (n = a)"
| "name_is JNull None = True"
| "name_is _ _ = False"

definition highlight :: "'g feature list \<Rightarrow> string option \<Rightarrow> scene_state \<Rightarrow> scene_state" where
  "highlight features activeName s =
     s\<lparr>fills := map (\<lambda>d. if name_is (name d) activeName then ''#93c5fd'' else ''#e5e7eb'')
                   features\<rparr>"

definition centroid :: "'g geoPath \<Rightarrow> 'g feature \<Rightarrow> point" where
  "centroid path f = (let c = path_centroid path f in (fst c, snd c))"

text \<open>
  \<^verbatim>\<open>drawLink(from, to, durationMs)\<close>: one link path between the two centroids, revealed
  over \<open>durationMs\<close>, and a circle at each end. The appended path always has a node, so
  the early return after \<^verbatim>\<open>link.node()\<close> is never taken.
\<close>

definition drawLink ::
  "'g geoPath \<Rightarrow> 'g feature \<Rightarrow> 'g feature \<Rightarrow> jsnum \<Rightarrow> scene_state \<Rightarrow> scene_state" where
  "drawLink path from to durationMs s =
     (let a = centroid path from;
          b = centroid path to
      in s\<lparr>links := links s @ [\<lparr>link_from = a, link_to = b, link_duration = durationMs\<rparr>],
            circles := circles s @ [a, b]\<rparr>)"

text \<open>
  \<^verbatim>\<open>focus(name, durationMs = 1200)\<close>, up to the end of the awaited transition.
\<close>

definition focus ::
  "'g geoPath \<Rightarrow> 'g feature list \<Rightarrow> string \<Rightarrow> jsnum option \<Rightarrow> scene_state \<Rightarrow> scene_state" where
  "focus path features nm duration_arg s =
     (let durationMs = (case duration_arg of None \<Rightarrow> Fin 1200 | Some d \<Rightarrow> d)
      in case byName features nm of
           None \<Rightarrow> s
         | Some feature \<Rightarrow>
             (let s1 = highlight features (Some nm) s;
                  t = transformFor path feature None
              in s1\<lparr>scene_transform := Some t,
                     timeline := timeline s1 @ [Transition durationMs t]\<rparr>))"

text \<open>The two names of the demo tour, in UTF-8.\<close>

definition jiangxi_name :: string where
  "jiangxi_name = [CHR 0xE6, CHR 0xB1, CHR 0x9F, CHR 0xE8, CHR 0xA5, CHR 0xBF,
                   CHR 0xE7, CHR 0x9C, CHR 0x81]"

definition shanghai_name :: string where
  "shanghai_name = [CHR 0xE4, CHR 0xB8, CHR 0x8A, CHR 0xE6, CHR 0xB5, CHR 0xB7,
                    CHR 0xE5, CHR 0xB8, CHR 0x82]"

text \<open>The demo tour, from its first line to the end of the last awaited transition.\<close>

definition demo_tour :: "'g geoPath \<Rightarrow> 'g feature list \<Rightarrow> scene_state \<Rightarrow> scene_state" where
  "demo_tour path features s =
     (case byName features jiangxi_name of
        None \<Rightarrow> s
      | Some jiangxi \<Rightarrow>
          (case byName features shanghai_name of
             None \<Rightarrow> s
           | Some shanghai \<Rightarrow>
               (let s1 = highlight features (Some jiangxi_name) s;
                    t = transformFor path jiangxi None;
                    s2 = s1\<lparr>scene_transform := Some t, timeline := timeline s1 @ [SetAttr t]\<rparr>;
                    s3 = s2\<lparr>timeline := timeline s2 @ [Delay (Fin 600)]\<rparr>;
                    moveMs = Fin 1600;
                    s4 = drawLink path jiangxi shanghai moveMs s3
                in focus path features shanghai_name (Some moveMs) s4)))"

text \<open>
  The effect as a whole: fit the projection, draw one path per feature with the default
  fill, build the index (inside \<open>focus\<close> and \<open>demo_tour\<close>) and run the tour.
\<close>

definition initial_scene :: "'g feature list \<Rightarrow> scene_state" where
  "initial_scene features =
     \<lparr>fills = map (\<lambda>d. ''#e5e7eb'') features, scene_transform = None,
      links = [], circles = [], timeline = []\<rparr>"

definition Home_effect :: "'g d3 \<Rightarrow> 'g feature list \<Rightarrow> geo_projection \<times> scene_state" where
  "Home_effect lib features =
     (let proj = projection lib features;
          path = geoPath lib proj
      in (proj, demo_tour path features (initial_scene features)))"

subsection \<open>Sample data\<close>

text \<open>
  To run the definitions on concrete data, a stand-in for d3 in which the geometry of a
  feature is its own screen bounding box: the bounds are the geometry, the centroid is
  the centre of the box, and the bounds stream receives the two corners. The coordinates
  used below are doubles.
\<close>

fun box_centre :: "bbox \<Rightarrow> point" where
  "box_centre ((x0, y0), (x1, y1)) =
     (jdiv (jadd x0 x1) (Fin 2), jdiv (jadd y0 y1) (Fin 2))"

definition box_path :: "bbox geoPath" where
  "box_path = \<lparr>path_bounds = geometry, path_centroid = (\<lambda>f. box_centre (geometry f))\<rparr>"

definition box_d3 :: "bbox d3" where
  "box_d3 = \<lparr>geoStream = (\<lambda>b. [fst b, snd b]), geoPath = (\<lambda>p. box_path)\<rparr>"

definition named_box :: "string \<Rightarrow> real \<Rightarrow> real \<Rightarrow> real \<Rightarrow> real \<Rightarrow> bbox feature" where
  "named_box n x0 y0 x1 y1 =
     \<lparr>name = JString n, geometry = ((Fin x0, Fin y0), (Fin x1, Fin y1))\<rparr>"

section \<open>Properties\<close>

subsection \<open>Rounding\<close>

text \<open>
  The exponent search meets its specification; rounding moves a real by at most half a unit
  in the last place, leaves a double as it is, never yields NaN, and lands on a multiple
  of \<open>2 ^ - 1074\<close>; a sum of doubles that is not zero does not round to zero; and for
  every positive double the product with one half rounds strictly below the product with
  the double nearest to nine tenths.
\<close>

lemma rhe_of_int [simp]: "rhe (of_int n) = n"
  by (simp add: rhe_def)

lemma rhe_bounds: "x - 1 / 2 \<le> of_int (rhe x)" "of_int (rhe x) \<le> x + 1 / 2"
  unfolding rhe_def Let_def by (auto; linarith)+

lemma rhe_nonneg: "0 \<le> x \<Longrightarrow> 0 \<le> rhe x"
  unfolding rhe_def Let_def by (auto simp: zero_le_floor; linarith?)

lemma bisect_spec:
  assumes "lo < hi" and "a < 2 powi hi" and "lo = - 1022 \<or> 2 powi lo \<le> a"
  shows "lo \<le> bisect lo hi a \<and> bisect lo hi a < hi
         \<and> a < 2 powi (bisect lo hi a + 1)
         \<and> (bisect lo hi a = - 1022 \<or> 2 powi (bisect lo hi a) \<le> a)"
  using assms
proof (induction lo hi a rule: bisect.induct)
  case (1 lo hi a)
  show ?case
  proof (cases "hi - lo \<le> 1")
    case True
    then have b: "bisect lo hi a = lo" by (simp add: bisect.simps [of lo hi a])
    from True "1.prems" have "hi = lo + 1" by simp
    with "1.prems" show ?thesis unfolding b by simp
  next
    case False
    define mid where "mid = (lo + hi) div 2"
    from False have m: "lo < mid" "mid < hi" by (simp_all add: mid_def)
    show ?thesis
    proof (cases "a < 2 powi mid")
      case True
      from "1.IH"(1) [OF False mid_def True m(1) True "1.prems"(3)]
      have "lo \<le> bisect lo mid a \<and> bisect lo mid a < mid
         \<and> a < 2 powi (bisect lo mid a + 1)
         \<and> (bisect lo mid a = - 1022 \<or> 2 powi (bisect lo mid a) \<le> a)" .
      moreover have "bisect lo hi a = bisect lo mid a"
        using False True by (simp add: bisect.simps [of lo hi a] mid_def)
      ultimately show ?thesis using m by simp
    next
      case ge: False
      then have "2 powi mid \<le> a" by simp
      then have "mid = - 1022 \<or> 2 powi mid \<le> a" by simp
      from "1.IH"(2) [OF False mid_def ge m(2) "1.prems"(2) this]
      have "mid \<le> bisect mid hi a \<and> bisect mid hi a < hi
         \<and> a < 2 powi (bisect mid hi a + 1)
         \<and> (bisect mid hi a = - 1022 \<or> 2 powi (bisect mid hi a) \<le> a)" .
      moreover have "bisect lo hi a = bisect mid hi a"
        using False ge by (simp add: bisect.simps [of lo hi a] mid_def)
      ultimately show ?thesis using m by simp
    qed
  qed
qed

lemma expo_spec:
  assumes "a < 2 powi 1024"
  shows "- 1022 \<le> expo a" "expo a \<le> 1023" "a < 2 powi (expo a + 1)"
    "expo a = - 1022 \<or> 2 powi (expo a) \<le> a"
  using bisect_spec [of "- 1022" 1024 a] assms unfolding expo_def by simp_all

lemma expo_unique:
  assumes "- 1022 \<le> k" "k \<le> 1023" "a < 2 powi (k + 1)" "k = - 1022 \<or> 2 powi k \<le> a"
  shows "expo a = k"
proof -
  have "(2::real) powi (k + 1) \<le> 2 powi 1024"
    using assms(2) by (intro power_int_increasing) simp_all
  with assms(3) have lt: "a < 2 powi 1024" by simp
  note s = expo_spec [OF lt]
  have "\<not> expo a < k"
  proof
    assume "expo a < k"
    then have "expo a + 1 \<le> k" by simp
    then have "(2::real) powi (expo a + 1) \<le> 2 powi k"
      by (intro power_int_increasing) simp_all
    with s(3) have "a < 2 powi k" by simp
    moreover from \<open>expo a < k\<close> s(1) have "k \<noteq> - 1022" by simp
    ultimately show False using assms(4) by simp
  qed
  moreover have "\<not> k < expo a"
  proof
    assume "k < expo a"
    then have "k + 1 \<le> expo a" by simp
    then have "(2::real) powi (k + 1) \<le> 2 powi (expo a)"
      by (intro power_int_increasing) simp_all
    with assms(3) have "a < 2 powi (expo a)" by simp
    moreover from \<open>k < expo a\<close> assms(1) have "expo a \<noteq> - 1022" by simp
    ultimately show False using s(4) by simp
  qed
  ultimately show ?thesis by simp
qed

lemma pw_shift: "(2::real) powi (e + int m) = 2 ^ m * 2 powi e"
  by (simp add: power_int_add)

lemma pw53: "(2::real) powi (k + 1) = 2 ^ 53 * 2 powi (k - 52)"
proof -
  have "k + 1 = k - 52 + int 53" by simp
  then show ?thesis by (simp only: pw_shift)
qed

lemma pw52: "(2::real) powi k = 2 ^ 52 * 2 powi (k - 52)"
proof -
  have "k = k - 52 + int 52" by simp
  then have "(2::real) powi k = 2 powi (k - 52 + int 52)" by simp
  then show ?thesis by (simp only: pw_shift)
qed

lemma pw_pos [simp]: "0 < (2::real) powi e"
  by (simp add: zero_less_power_int)

lemma fl_pos:
  assumes "0 < x" and "x < 2 powi 1024 - 2 powi 970"
  shows "fl x = Fin (of_int (rhe (x / 2 powi (expo x - 52))) * 2 powi (expo x - 52))"
proof -
  from assms have "\<not> (2 powi 1024 - 2 powi 970 \<le> \<bar>x\<bar>)" "x \<noteq> 0" "\<bar>x\<bar> = x" by simp_all
  then show ?thesis unfolding fl_def Let_def using assms(1) by (simp only: if_False if_True)
qed

lemma fl_pos_overflow:
  assumes "0 < x" and "2 powi 1024 - 2 powi 970 \<le> x"
  shows "fl x = PosInf"
proof -
  from assms have "2 powi 1024 - 2 powi 970 \<le> \<bar>x\<bar>" "x \<noteq> 0" by simp_all
  then show ?thesis unfolding fl_def Let_def using assms(1) by (simp only: if_False if_True)
qed

lemma fl_uminus:
  assumes "0 < x"
  shows "fl (- x) = jneg (fl x)"
proof (cases "2 powi 1024 - 2 powi 970 \<le> x")
  case True
  with assms have "2 powi 1024 - 2 powi 970 \<le> \<bar>- x\<bar>" "- x \<noteq> 0" "\<not> 0 < - x" by simp_all
  then have "fl (- x) = NegInf" unfolding fl_def Let_def by (simp only: if_False if_True)
  with fl_pos_overflow [OF assms True] show ?thesis by simp
next
  case False
  then have lt: "x < 2 powi 1024 - 2 powi 970" by simp
  define r :: real where "r = of_int (rhe (x / 2 powi (expo x - 52))) * 2 powi (expo x - 52)"
  from False assms have c: "\<not> (2 powi 1024 - 2 powi 970 \<le> \<bar>- x\<bar>)" "- x \<noteq> 0" "\<not> 0 < - x"
    "\<bar>- x\<bar> = x" by simp_all
  have "fl (- x) = (if r = 0 then NegZero else Fin (- r))"
    unfolding fl_def Let_def r_def using c by (simp only: if_False if_True)
  moreover have "fl x = Fin r" unfolding r_def by (rule fl_pos [OF assms lt])
  ultimately show ?thesis by simp
qed

lemma fl_zero [simp]: "fl 0 = Fin 0"
  by (simp add: fl_def)

lemma fl_exact:
  assumes "0 < a" and "- 1022 \<le> k" and "k \<le> 1023" and "a < 2 powi (k + 1)"
    and "k = - 1022 \<or> 2 powi k \<le> a" and "a = of_int n * 2 powi (k - 52)"
  shows "fl a = Fin a"
proof -
  have e: "expo a = k" by (rule expo_unique [OF assms(2-5)])
  define Q :: real where "Q = 2 powi (k - 52)"
  have Qpos: "0 < Q" by (simp add: Q_def)
  have k1: "2 powi (k + 1) = 2 ^ 53 * Q" unfolding Q_def by (rule pw53)
  from assms(4) have "of_int n * Q < 2 ^ 53 * Q" unfolding k1 assms(6) Q_def .
  with Qpos have "(of_int n :: real) < 2 ^ 53" by simp
  then have "n < 2 ^ 53" by (metis of_int_less_iff of_int_numeral of_int_power)
  then have "n \<le> 2 ^ 53 - 1" by simp
  then have "(of_int n :: real) \<le> of_int (2 ^ 53 - 1)" by (simp only: of_int_le_iff)
  then have n: "(of_int n :: real) \<le> 2 ^ 53 - 1" by simp
  have "Q \<le> 2 powi 971" unfolding Q_def using assms(3) by (intro power_int_increasing) simp_all
  with n Qpos have "of_int n * Q \<le> (2 ^ 53 - 1) * 2 powi 971" by (intro mult_mono) simp_all
  also have "\<dots> < 2 powi 1024 - 2 powi 970" by simp
  finally have lt: "a < 2 powi 1024 - 2 powi 970" by (simp add: assms(6) Q_def)
  have "a / Q = of_int n" using Qpos by (simp add: assms(6) Q_def)
  then have "of_int (rhe (a / Q)) * Q = a" by (simp add: assms(6) Q_def)
  with fl_pos [OF assms(1) lt] show ?thesis by (simp add: e Q_def)
qed

lemma fl_pos_shape:
  assumes "0 < x" and "fl x = Fin a" and "a \<noteq> 0"
  shows "\<exists>k n. - 1022 \<le> k \<and> k \<le> 1023 \<and> a < 2 powi (k + 1)
           \<and> (k = - 1022 \<or> 2 powi k \<le> a) \<and> a = of_int n * 2 powi (k - 52) \<and> 0 < a"
proof -
  have T: "x < 2 powi 1024 - 2 powi 970"
  proof (rule ccontr)
    assume "\<not> x < 2 powi 1024 - 2 powi 970"
    then have "fl x = PosInf" using assms(1) by (intro fl_pos_overflow) simp_all
    with assms(2) show False by simp
  qed
  then have "x < 2 powi 1024" by simp
  note s = expo_spec [OF this]
  define e where "e = expo x"
  define Q :: real where "Q = 2 powi (e - 52)"
  define n where "n = rhe (x / Q)"
  have Qpos: "0 < Q" by (simp add: Q_def)
  have a: "a = of_int n * Q"
    using fl_pos [OF assms(1) T] assms(2) by (simp add: n_def Q_def e_def)
  have e1: "2 powi (e + 1) = 2 ^ 53 * Q" unfolding Q_def by (rule pw53)
  have e0: "2 powi e = 2 ^ 52 * Q" unfolding Q_def by (rule pw52)
  from assms(1) Qpos have "0 \<le> x / Q" by simp
  then have "0 \<le> n" unfolding n_def by (rule rhe_nonneg)
  with a assms(3) have npos: "0 < n" by (cases "n = 0") simp_all
  with a Qpos have apos: "0 < a" by simp
  from s(3) have "x < 2 ^ 53 * Q" by (simp only: e_def [symmetric] e1)
  with Qpos have xq: "x / Q < 2 ^ 53" by (simp add: pos_divide_less_eq)
  have "of_int n \<le> x / Q + 1 / 2" unfolding n_def by (rule rhe_bounds)
  with xq have "(of_int n :: real) < 2 ^ 53 + 1 / 2" by simp
  then have "(of_int n :: real) < of_int (2 ^ 53 + 1)" by simp
  then have "n < 2 ^ 53 + 1" by (simp only: of_int_less_iff)
  then have nle: "n \<le> 2 ^ 53" by simp
  show ?thesis
  proof (cases "n = 2 ^ 53")
    case True
    then have a1: "a = 2 powi (e + 1)" by (simp add: a e1)
    have "e \<noteq> 1023"
    proof
      assume e: "e = 1023"
      then have "Q = 2 powi 971" by (simp add: Q_def)
      define y where "y = x / Q"
      from T \<open>Q = 2 powi 971\<close> have "y < 2 ^ 53 - 1 / 2"
        unfolding y_def by (simp add: pos_divide_less_eq)
      moreover have "of_int n \<le> y + 1 / 2" unfolding n_def y_def by (rule rhe_bounds)
      ultimately have "(of_int n :: real) < 2 ^ 53" by linarith
      with True show False by simp
    qed
    with s(2) have k: "e + 1 \<le> 1023" by (simp add: e_def)
    have "a = 2 ^ 52 * 2 powi (e + 1 - 52)" unfolding a1 by (rule pw52)
    then have c5: "a = of_int (2 ^ 52) * 2 powi (e + 1 - 52)" by simp
    have c3: "a < 2 powi (e + 1 + 1)"
      unfolding a1 by (intro power_int_strict_increasing) simp_all
    have c1: "- 1022 \<le> e + 1" using s(1) by (simp add: e_def)
    have c4: "e + 1 = - 1022 \<or> 2 powi (e + 1) \<le> a" by (simp add: a1)
    from c1 k c3 c4 c5 apos show ?thesis by blast
  next
    case False
    with nle have "n < 2 ^ 53" by simp
    then have "(of_int n :: real) < of_int (2 ^ 53)" by (simp only: of_int_less_iff)
    then have "(of_int n :: real) < 2 ^ 53" by simp
    with Qpos have "a < 2 ^ 53 * Q" by (simp add: a)
    then have lt: "a < 2 powi (e + 1)" by (simp only: e1)
    have lo: "e = - 1022 \<or> 2 powi e \<le> a"
    proof (cases "e = - 1022")
      case True
      then show ?thesis by simp
    next
      case ne: False
      with s(4) have "2 powi e \<le> x" by (simp add: e_def)
      then have "2 ^ 52 * Q \<le> x" by (simp only: e0)
      with Qpos have "2 ^ 52 \<le> x / Q" by (simp add: pos_le_divide_eq)
      moreover have "x / Q - 1 / 2 \<le> of_int n" unfolding n_def by (rule rhe_bounds)
      ultimately have "(2 ^ 52 - 1 :: real) < of_int n" by simp
      then have "(of_int (2 ^ 52 - 1) :: real) < of_int n" by simp
      then have "2 ^ 52 - 1 < n" by (simp only: of_int_less_iff)
      then have "2 ^ 52 \<le> n" by simp
      then have "(of_int (2 ^ 52) :: real) \<le> of_int n" by (simp only: of_int_le_iff)
      then have "(2 ^ 52 :: real) \<le> of_int n" by simp
      with Qpos have "2 ^ 52 * Q \<le> a" by (simp add: a)
      then have "2 powi e \<le> a" by (simp only: e0)
      then show ?thesis by (rule disjI2)
    qed
    from s(1,2) have "- 1022 \<le> e" "e \<le> 1023" by (simp_all add: e_def)
    with lt lo a apos show ?thesis unfolding Q_def by blast
  qed
qed

lemma fl_idem_pos:
  assumes "0 < x" and "fl x = Fin a"
  shows "fl a = Fin a"
proof (cases "a = 0")
  case True
  then show ?thesis by simp
next
  case False
  from fl_pos_shape [OF assms False] obtain k n where
    "- 1022 \<le> k" "k \<le> 1023" "a < 2 powi (k + 1)" "k = - 1022 \<or> 2 powi k \<le> a"
    "a = of_int n * 2 powi (k - 52)" "0 < a" by blast
  then show ?thesis by (intro fl_exact [of a k n]) simp_all
qed

lemma fl_pos_result:
  assumes "0 < x"
  shows "fl x = PosInf \<or> (\<exists>r. fl x = Fin r \<and> 0 \<le> r)"
proof (cases "2 powi 1024 - 2 powi 970 \<le> x")
  case True
  with assms show ?thesis by (simp add: fl_pos_overflow)
next
  case False
  then have T: "x < 2 powi 1024 - 2 powi 970" by simp
  from assms have "0 \<le> x / 2 powi (expo x - 52)" by simp
  then have "0 \<le> rhe (x / 2 powi (expo x - 52))" by (rule rhe_nonneg)
  then have "0 \<le> (of_int (rhe (x / 2 powi (expo x - 52))) :: real) * 2 powi (expo x - 52)"
    by simp
  with fl_pos [OF assms T] show ?thesis by blast
qed

lemma fl_idem:
  assumes "fl x = Fin a"
  shows "fl a = Fin a"
proof -
  consider "x = 0" | "0 < x" | "x < 0" by linarith
  then show ?thesis
  proof cases
    case 1
    with assms show ?thesis by simp
  next
    case 2
    then show ?thesis using assms by (rule fl_idem_pos)
  next
    case 3
    then have p: "0 < - x" by simp
    from fl_uminus [OF p] assms have n: "jneg (fl (- x)) = Fin a" by simp
    from fl_pos_result [OF p] show ?thesis
    proof
      assume "fl (- x) = PosInf"
      with n show ?thesis by simp
    next
      assume "\<exists>r. fl (- x) = Fin r \<and> 0 \<le> r"
      then obtain r where r: "fl (- x) = Fin r" "0 \<le> r" by blast
      with n have ne: "r \<noteq> 0" and a: "a = - r" by (auto split: if_splits)
      from r ne have rpos: "0 < r" by simp
      have "fl r = Fin r" using p r(1) by (rule fl_idem_pos)
      with fl_uminus [OF rpos] ne show ?thesis by (simp add: a)
    qed
  qed
qed

lemma fl_not_NaN [simp]: "fl x \<noteq> NaN"
proof -
  consider "x = 0" | "0 < x" | "x < 0" by linarith
  then show ?thesis
  proof cases
    case 1
    then show ?thesis by simp
  next
    case 2
    from fl_pos_result [OF this] show ?thesis by auto
  next
    case 3
    then have p: "0 < - x" by simp
    from fl_pos_result [OF p] fl_uminus [OF p] show ?thesis by (auto split: if_splits)
  qed
qed

lemma fl_grid_pos:
  assumes "0 < x" and "fl x = Fin a"
  shows "\<exists>J. a = of_int J * 2 powi (- 1074)"
proof (cases "a = 0")
  case True
  then have "a = of_int 0 * 2 powi (- 1074)" by simp
  then show ?thesis by blast
next
  case False
  from fl_pos_shape [OF assms False] obtain k n where
    k: "- 1022 \<le> k" and a: "a = of_int n * 2 powi (k - 52)" by blast
  from k have "k - 52 = - 1074 + int (nat (k + 1022))" by simp
  then have "(2::real) powi (k - 52) = 2 ^ nat (k + 1022) * 2 powi (- 1074)"
    by (simp only: pw_shift)
  with a have "a = of_int (n * 2 ^ nat (k + 1022)) * 2 powi (- 1074)" by simp
  then show ?thesis by blast
qed

lemma fl_grid:
  assumes "fl x = Fin a"
  shows "\<exists>J. a = of_int J * 2 powi (- 1074)"
proof -
  from fl_idem [OF assms] have aa: "fl a = Fin a" .
  consider "a = 0" | "0 < a" | "a < 0" by linarith
  then show ?thesis
  proof cases
    case 1
    then have "a = of_int 0 * 2 powi (- 1074)" by simp
    then show ?thesis by blast
  next
    case 2
    then show ?thesis using aa by (rule fl_grid_pos)
  next
    case 3
    then have p: "0 < - a" by simp
    from fl_uminus [OF p] aa have "jneg (fl (- a)) = Fin a" by simp
    with fl_pos_result [OF p] obtain r where r: "fl (- a) = Fin r" "a = - r" "r \<noteq> 0"
      by (auto split: if_splits)
    from fl_grid_pos [OF p r(1)] obtain J where "r = of_int J * 2 powi (- 1074)" by blast
    with r(2) have "a = of_int (- J) * 2 powi (- 1074)" by simp
    then show ?thesis by blast
  qed
qed

lemma is_double_fl [simp]: "is_double (fl x)"
proof (cases "fl x")
  case (Fin a)
  then show ?thesis by (simp add: fl_idem [OF Fin])
qed simp_all

lemma is_double_signed [simp]: "is_double (signed_zero s)" "is_double (signed_inf s)"
  by (simp_all add: signed_zero_def signed_inf_def)

lemma is_double_jneg: "is_double z \<Longrightarrow> is_double (jneg z)"
proof (cases z)
  case (Fin a)
  assume "is_double z"
  with Fin have aa: "fl a = Fin a" by simp
  show ?thesis
  proof (cases "a = 0")
    case True
    with Fin show ?thesis by simp
  next
    case False
    consider "0 < a" | "a < 0" using False by linarith
    then show ?thesis
    proof cases
      case 1
      from fl_uminus [OF 1] aa False have "fl (- a) = Fin (- a)" by simp
      with Fin False show ?thesis by simp
    next
      case 2
      then have p: "0 < - a" by simp
      from fl_uminus [OF p] aa have "jneg (fl (- a)) = Fin a" by simp
      with fl_pos_result [OF p] have "fl (- a) = Fin (- a)" by (auto split: if_splits)
      with Fin False show ?thesis by simp
    qed
  qed
qed simp_all

lemma is_double_jmul [simp]: "is_double (jmul x y)"
  by (simp add: jmul_def Let_def)

lemma is_double_jdiv [simp]: "is_double (jdiv x y)"
  by (simp add: jdiv_def)

lemma is_double_jadd: "is_double x \<Longrightarrow> is_double y \<Longrightarrow> is_double (jadd x y)"
  by (auto simp: jadd_def Let_def)

lemma is_double_jsub: "is_double x \<Longrightarrow> is_double y \<Longrightarrow> is_double (jsub x y)"
  by (simp add: jsub_def is_double_jadd is_double_jneg)

lemma is_double_jmin: "is_double x \<Longrightarrow> is_double y \<Longrightarrow> is_double (jmin x y)"
  by (simp add: jmin_def)

lemma jmul_one: "is_double z \<Longrightarrow> jmul (Fin 1) z = z"
  by (cases z) (auto simp: jmul_def signed_zero_def signed_inf_def)

lemma jadd_zero: "is_double z \<Longrightarrow> z \<noteq> NegZero \<Longrightarrow> jadd (Fin 0) z = z"
  by (cases z) (auto simp: jadd_def)

lemma fl_nonzero_pos:
  assumes "2 powi (- 1074) \<le> x"
  shows "fl x \<noteq> Fin 0"
proof (cases "2 powi 1024 - 2 powi 970 \<le> x")
  have xpos: "0 < x" using assms pw_pos [of "- 1074"] by linarith
  {
    case True
    with xpos show ?thesis by (simp add: fl_pos_overflow)
  next
    case False
    then have T: "x < 2 powi 1024 - 2 powi 970" by simp
    then have "x < 2 powi 1024" by simp
    note s = expo_spec [OF this]
    define Q :: real where "Q = 2 powi (expo x - 52)"
    have Qpos: "0 < Q" by (simp add: Q_def)
    have "Q \<le> x"
    proof (cases "expo x = - 1022")
      case True
      then show ?thesis using assms by (simp add: Q_def)
    next
      case False
      with s(4) have "2 powi (expo x) \<le> x" by simp
      moreover have "Q \<le> 2 powi (expo x)"
        unfolding Q_def by (intro power_int_increasing) simp_all
      ultimately show ?thesis by simp
    qed
    with Qpos have "1 \<le> x / Q" by (simp add: pos_le_divide_eq)
    moreover have "x / Q - 1 / 2 \<le> of_int (rhe (x / Q))" by (rule rhe_bounds)
    ultimately have "(0::real) < of_int (rhe (x / Q))" by linarith
    with Qpos have "of_int (rhe (x / Q)) * Q \<noteq> 0" by simp
    with fl_pos [OF xpos T] show ?thesis unfolding Q_def by simp
  }
qed

lemma fl_nonzero:
  assumes "2 powi (- 1074) \<le> \<bar>x\<bar>"
  shows "fl x \<noteq> Fin 0 \<and> fl x \<noteq> NegZero"
proof (cases "0 < x")
  case True
  with assms have "2 powi (- 1074) \<le> x" by simp
  from fl_nonzero_pos [OF this] fl_pos_result [OF True] show ?thesis by auto
next
  case False
  have "0 < (2::real) powi (- 1074)" by (rule pw_pos)
  with assms False have p: "0 < - x" and b: "2 powi (- 1074) \<le> - x" by linarith+
  from fl_uminus [OF p] have "fl x = jneg (fl (- x))" by simp
  with fl_nonzero_pos [OF b] fl_pos_result [OF p] show ?thesis by (auto split: if_splits)
qed

lemma jadd_no_underflow:
  assumes "a = of_int A * 2 powi (- 1074)" and "b = of_int B * 2 powi (- 1074)"
    and "a + b \<noteq> 0"
  shows "fl (a + b) \<noteq> Fin 0 \<and> fl (a + b) \<noteq> NegZero"
proof -
  have s: "a + b = of_int (A + B) * 2 powi (- 1074)"
    by (simp add: assms(1,2) algebra_simps)
  with assms(3) have "A + B \<noteq> 0" by auto
  then have "1 \<le> \<bar>A + B\<bar>" by simp
  then have "(1::real) \<le> \<bar>of_int (A + B)\<bar>" by (metis of_int_1_le_iff of_int_abs)
  then have "1 * 2 powi (- 1074) \<le> \<bar>of_int (A + B) :: real\<bar> * 2 powi (- 1074)"
    by (intro mult_right_mono) simp_all
  then have "2 powi (- 1074) \<le> \<bar>a + b\<bar>" by (simp add: s abs_mult)
  then show ?thesis by (rule fl_nonzero)
qed

lemma expo_mono:
  assumes "x \<le> y" and "y < 2 powi 1024"
  shows "expo x \<le> expo y"
proof (rule ccontr)
  assume "\<not> expo x \<le> expo y"
  then have gt: "expo y + 1 \<le> expo x" by simp
  from assms have "x < 2 powi 1024" by simp
  note sx = expo_spec [OF this] and sy = expo_spec [OF assms(2)]
  from gt sy(1) have "expo x \<noteq> - 1022" by simp
  with sx(4) have "2 powi (expo x) \<le> x" by simp
  moreover from gt have "(2::real) powi (expo y + 1) \<le> 2 powi (expo x)"
    by (intro power_int_increasing) simp_all
  ultimately show False using sy(3) assms(1) by simp
qed

lemma fl_pos_err:
  assumes "0 < x" and "x < 2 powi 1024 - 2 powi 970"
  shows "\<exists>r. fl x = Fin r \<and> r \<le> x + 2 powi (expo x - 52) / 2
             \<and> x - 2 powi (expo x - 52) / 2 \<le> r"
proof -
  define Q :: real where "Q = 2 powi (expo x - 52)"
  define n :: real where "n = of_int (rhe (x / Q))"
  have Qpos: "0 < Q" by (simp add: Q_def)
  have "x / Q - 1 / 2 \<le> n" "n \<le> x / Q + 1 / 2" unfolding n_def by (rule rhe_bounds)+
  with Qpos have "(x / Q - 1 / 2) * Q \<le> n * Q" "n * Q \<le> (x / Q + 1 / 2) * Q"
    by (simp_all only: mult_le_cancel_right_pos)
  with Qpos have "x - Q / 2 \<le> n * Q" "n * Q \<le> x + Q / 2" by (simp_all add: algebra_simps)
  moreover have "fl x = Fin (n * Q)" unfolding n_def Q_def by (rule fl_pos [OF assms])
  ultimately show ?thesis unfolding Q_def by blast
qed

lemma rhe_half_lt:
  assumes "1 \<le> J"
  shows "rhe (of_int J / 2) < rhe (8106479329266893 / 9007199254740992 * of_int J)"
proof -
  consider "J = 1" | "J = 2" | "3 \<le> J" using assms by linarith
  then show ?thesis
  proof cases
    case 1
    then show ?thesis by (simp add: rhe_def Let_def)
  next
    case 2
    then show ?thesis by (simp add: rhe_def Let_def)
  next
    case 3
    define j :: real where "j = of_int J"
    from 3 have j: "3 \<le> j" unfolding j_def by simp
    have "of_int (rhe (j / 2)) \<le> j / 2 + 1 / 2" by (rule rhe_bounds)
    moreover have "8106479329266893 / 9007199254740992 * j - 1 / 2
        \<le> of_int (rhe (8106479329266893 / 9007199254740992 * j))" by (rule rhe_bounds)
    ultimately have "(of_int (rhe (j / 2)) :: real)
        < of_int (rhe (8106479329266893 / 9007199254740992 * j))" using j by linarith
    then show ?thesis unfolding j_def by (simp only: of_int_less_iff)
  qed
qed

lemma fl_half_lt_ninetenths:
  assumes "0 < a" and "fl a = Fin a"
  shows "\<exists>r1 r2. fl (a * (1 / 2)) = Fin r1
           \<and> fl (a * (8106479329266893 / 9007199254740992)) = Fin r2 \<and> r1 < r2"
proof -
  define c :: real where "c = 8106479329266893 / 9007199254740992"
  define x where "x = a * (1 / 2)"
  define y where "y = a * c"
  have T: "a < 2 powi 1024 - 2 powi 970"
  proof (rule ccontr)
    assume "\<not> a < 2 powi 1024 - 2 powi 970"
    then have "fl a = PosInf" using assms(1) by (intro fl_pos_overflow) simp_all
    with assms(2) show False by simp
  qed
  have xpos: "0 < x" and xy: "x < y" and ya: "y < a"
    using assms(1) by (simp_all add: x_def y_def c_def)
  from xy xpos have ypos: "0 < y" by simp
  from ya T have Ty: "y < 2 powi 1024 - 2 powi 970" by simp
  with xy have Tx: "x < 2 powi 1024 - 2 powi 970" by simp
  from Ty have y1024: "y < 2 powi 1024" by simp
  with xy have x1024: "x < 2 powi 1024" by simp
  from fl_pos_err [OF xpos Tx] obtain r1 where
    r1: "fl x = Fin r1" "r1 \<le> x + 2 powi (expo x - 52) / 2" by blast
  from fl_pos_err [OF ypos Ty] obtain r2 where
    r2: "fl y = Fin r2" "y - 2 powi (expo y - 52) / 2 \<le> r2" by blast
  have "r1 < r2"
  proof (cases "2 powi (- 1022) \<le> y")
    case True
    note sy = expo_spec [OF y1024]
    have "2 powi (expo y) \<le> y"
    proof (cases "expo y = - 1022")
      case e: True
      with True show ?thesis by simp
    next
      case False
      with sy(4) show ?thesis by simp
    qed
    then have "2 ^ 52 * 2 powi (expo y - 52) \<le> y" by (simp only: pw52 [symmetric])
    then have Qy: "2 powi (expo y - 52) \<le> y / 2 ^ 52" by (simp add: pos_le_divide_eq mult.commute)
    have "expo x \<le> expo y" using xy y1024 by (intro expo_mono) simp_all
    then have "(2::real) powi (expo x - 52) \<le> 2 powi (expo y - 52)"
      by (intro power_int_increasing) simp_all
    with Qy have Qx: "2 powi (expo x - 52) \<le> y / 2 ^ 52" by simp
    have "a * (1 / 2 + c / 2 ^ 52) < a * c"
      using assms(1) by (intro mult_strict_left_mono) (simp_all add: c_def)
    then have "x + y / 2 ^ 52 < y" by (simp add: x_def y_def algebra_simps)
    with Qx Qy r1(2) r2(2) show ?thesis by linarith
  next
    case False
    then have ysub: "y < 2 powi (- 1022)" by simp
    have "(2::real) powi (- 1022) < 2 powi (- 1022 + 1)"
      by (intro power_int_strict_increasing) simp_all
    with ysub xy have "y < 2 powi (- 1022 + 1)" "x < 2 powi (- 1022 + 1)" by simp_all
    then have ey: "expo y = - 1022" and ex: "expo x = - 1022"
      by (intro expo_unique; simp)+
    define Q :: real where "Q = 2 powi (- 1074)"
    have Qpos: "0 < Q" by (simp add: Q_def)
    from fl_grid [OF assms(2)] obtain J where J: "a = of_int J * Q" unfolding Q_def by blast
    with assms(1) Qpos have "0 < (of_int J :: real)" by (simp add: zero_less_mult_iff)
    then have "1 \<le> J" by simp
    from rhe_half_lt [OF this]
    have lt: "rhe (of_int J / 2) < rhe (c * of_int J)" by (simp add: c_def)
    have xq: "x / Q = of_int J / 2" and yq: "y / Q = c * of_int J"
      using Qpos by (simp_all add: x_def y_def J)
    have "fl x = Fin (of_int (rhe (x / Q)) * Q)" "fl y = Fin (of_int (rhe (y / Q)) * Q)"
      using fl_pos [OF xpos Tx] fl_pos [OF ypos Ty] by (simp_all add: ex ey Q_def)
    then have "fl x = Fin (of_int (rhe (of_int J / 2)) * Q)"
      "fl y = Fin (of_int (rhe (c * of_int J)) * Q)" by (simp_all only: xq yq)
    with r1(1) r2(1)
    have "r1 = of_int (rhe (of_int J / 2)) * Q" "r2 = of_int (rhe (c * of_int J)) * Q"
      by simp_all
    with lt Qpos show ?thesis by simp
  qed
  with r1(1) r2(1) show ?thesis unfolding x_def y_def c_def by blast
qed

subsection \<open>Evaluating the arithmetic\<close>

lemmas js_eval = fl_def expo_def bisect.simps rhe_def Let_def jadd_def jsub_def jmul_def
  jdiv_def jmin_def jgt_def jeq_def signed_zero_def signed_inf_def

lemma ninetenths: "fl (9 / 10) = Fin (8106479329266893 / 9007199254740992)"
  by (simp add: js_eval)

subsection \<open>The composition of the transform\<close>

lemma jeq_zero: "jeq a (Fin 0) = (a = Fin 0 \<or> a = NegZero)"
  by (cases a) (auto simp: jeq_def)

lemma jeq_one: "jeq k (Fin 1) = (k = Fin 1)"
  by (cases k) (auto simp: jeq_def)

lemma d3_compose:
  assumes "is_double k" and "is_double a" and "is_double b"
    and "a \<noteq> NegZero" and "b \<noteq> NegZero"
  shows "scale (translate zoomIdentity a b) k = Transform k a b"
proof -
  have t: "translate zoomIdentity a b = Transform (Fin 1) a b"
  proof (cases "jeq a (Fin 0) \<and> jeq b (Fin 0)")
    case True
    with assms(4,5) have "a = Fin 0" "b = Fin 0" by (simp_all add: jeq_zero)
    then show ?thesis by (simp add: zoomIdentity_def jeq_def)
  next
    case False
    have "translate zoomIdentity a b =
        (if jeq a (Fin 0) \<and> jeq b (Fin 0) then Transform (Fin 1) (Fin 0) (Fin 0)
         else Transform (Fin 1) (jadd (Fin 0) (jmul (Fin 1) a)) (jadd (Fin 0) (jmul (Fin 1) b)))"
      by (simp only: zoomIdentity_def translate.simps)
    also have "\<dots> =
        Transform (Fin 1) (jadd (Fin 0) (jmul (Fin 1) a)) (jadd (Fin 0) (jmul (Fin 1) b))"
      using False by (rule if_not_P)
    also have "\<dots> = Transform (Fin 1) a b"
      using assms by (simp add: jmul_one jadd_zero)
    finally show ?thesis .
  qed
  show ?thesis
  proof (cases "jeq k (Fin 1)")
    case True
    then show ?thesis by (simp add: t jeq_one)
  next
    case False
    then show ?thesis using assms(1) by (simp add: t jmul_one)
  qed
qed

lemma jsub_not_NegZero:
  assumes "fl a = Fin a" and "0 < a" and "is_double z"
  shows "jsub (Fin a) z \<noteq> NegZero"
proof (cases z)
  case (Fin b)
  with assms(3) have bb: "fl b = Fin b" by simp
  show ?thesis
  proof (cases "b = 0")
    case True
    with Fin assms(1,2) show ?thesis by (simp add: jsub_def jadd_def)
  next
    case False
    from fl_grid [OF assms(1)] obtain A where A: "a = of_int A * 2 powi (- 1074)" by blast
    from fl_grid [OF bb] obtain B where "b = of_int B * 2 powi (- 1074)" by blast
    then have B: "- b = of_int (- B) * 2 powi (- 1074)" by simp
    show ?thesis
    proof (cases "a + - b = 0")
      case True
      with Fin False show ?thesis by (simp add: jsub_def jadd_def)
    next
      case ne: False
      from jadd_no_underflow [OF A B ne] have "fl (a + - b) \<noteq> NegZero" by simp
      with Fin False ne show ?thesis by (simp add: jsub_def jadd_def)
    qed
  qed
next
  case NegZero
  with assms(1,2) show ?thesis by (simp add: jsub_def jadd_def)
qed (simp_all add: jsub_def jadd_def)

lemma half_viewport:
  "jdiv (Fin width) (Fin 2) = Fin 480" "jdiv (Fin height) (Fin 2) = Fin 300"
  "fl 480 = Fin 480" "fl 300 = Fin 300"
  by (simp_all add: width_def height_def js_eval)

lemma transformFor_components:
  assumes "path_bounds path f = ((x0, y0), (x1, y1))"
    and "(case pad of None \<Rightarrow> fl (9 / 10) | Some q \<Rightarrow> q) = p"
  shows "transformFor path f pad =
    Transform (jmul (jmin (jdiv (Fin width) (jsub x1 x0)) (jdiv (Fin height) (jsub y1 y0))) p)
      (jsub (jdiv (Fin width) (Fin 2))
        (jmul (jdiv (jadd x0 x1) (Fin 2))
          (jmul (jmin (jdiv (Fin width) (jsub x1 x0)) (jdiv (Fin height) (jsub y1 y0))) p)))
      (jsub (jdiv (Fin height) (Fin 2))
        (jmul (jdiv (jadd y0 y1) (Fin 2))
          (jmul (jmin (jdiv (Fin width) (jsub x1 x0)) (jdiv (Fin height) (jsub y1 y0))) p)))"
proof -
  define k where
    "k = jmul (jmin (jdiv (Fin width) (jsub x1 x0)) (jdiv (Fin height) (jsub y1 y0))) p"
  define a where "a = jsub (jdiv (Fin width) (Fin 2)) (jmul (jdiv (jadd x0 x1) (Fin 2)) k)"
  define b where "b = jsub (jdiv (Fin height) (Fin 2)) (jmul (jdiv (jadd y0 y1) (Fin 2)) k)"
  have k: "is_double k" by (simp add: k_def)
  have a: "is_double a" "a \<noteq> NegZero"
    unfolding a_def half_viewport
    by (simp_all add: is_double_jsub half_viewport jsub_not_NegZero)
  have b: "is_double b" "b \<noteq> NegZero"
    unfolding b_def half_viewport
    by (simp_all add: is_double_jsub half_viewport jsub_not_NegZero)
  have "transformFor path f pad = scale (translate zoomIdentity a b) k"
    using assms by (simp add: transformFor_def Let_def k_def a_def b_def)
  also have "\<dots> = Transform k a b" by (rule d3_compose [OF k a(1) b(1) a(2) b(2)])
  finally show ?thesis unfolding k_def a_def b_def .
qed

lemma name_named_box: "name (named_box n x0 y0 x1 y1) = JString n"
  by (simp add: named_box_def)

lemma transformFor_sample_1:
  "transformFor box_path (named_box n 100 200 340 320) None =
     Transform (Fin (8106479329266893 / 2251799813685248)) (Fin (- 312)) (Fin (- 636))"
  apply (simp only: transformFor_def box_path_def named_box_def width_def height_def
      zoomIdentity_def Let_def prod.case option.case geoPath.simps feature.simps)
  apply (simp add: js_eval)
  done

lemma transformFor_sample_2:
  "transformFor box_path (named_box n 700 300 720 330) None =
     Transform (Fin 18) (Fin (- 12300)) (Fin (- 5370))"
  apply (simp only: transformFor_def box_path_def named_box_def width_def height_def
      zoomIdentity_def Let_def prod.case option.case geoPath.simps feature.simps)
  apply (simp add: js_eval)
  done

text \<open>
  Claim C1. For a bounding box \<open>[[x0, y0], [x1, y1]]\<close> whose width \<open>dx = x1 - x0\<close> and
  height \<open>dy = y1 - y0\<close> both exceed a non-negative epsilon, and every padding \<open>p\<close>
  (given, or the default 0.9), \<open>transformFor\<close> returns exactly the scale
  \<open>s = min (width / dx) (height / dy) * p\<close> and the translation
  \<open>(width / 2 - (x0 + x1) / 2 * s, height / 2 - (y0 + y1) / 2 * s)\<close>, every operation
  being the one of double arithmetic. The viewport is the page's constant 960 by 600.
\<close>

theorem transformFor_fits_box:
  assumes "path_bounds path f = ((x0, y0), (x1, y1))"
    and "0 \<le> eps" and "jgt (jsub x1 x0) (Fin eps)" and "jgt (jsub y1 y0) (Fin eps)"
    and "(case pad of None \<Rightarrow> fl (9 / 10) | Some q \<Rightarrow> q) = p"
  shows "transformFor path f pad =
    (let s = jmul (jmin (jdiv (Fin width) (jsub x1 x0)) (jdiv (Fin height) (jsub y1 y0))) p
     in Transform s
          (jsub (jdiv (Fin width) (Fin 2)) (jmul (jdiv (jadd x0 x1) (Fin 2)) s))
          (jsub (jdiv (Fin height) (Fin 2)) (jmul (jdiv (jadd y0 y1) (Fin 2)) s)))"
  unfolding Let_def by (rule transformFor_components [OF assms(1,5)])

theorem transformFor_fits_box_witness:
  "transformFor box_path (named_box ''A'' 100 200 340 320) None =
     Transform (Fin (8106479329266893 / 2251799813685248)) (Fin (- 312)) (Fin (- 636))"
proof -
  have b: "path_bounds box_path (named_box ''A'' 100 200 340 320) =
      ((Fin 100, Fin 200), (Fin 340, Fin 320))"
    by (simp add: box_path_def named_box_def)
  have e: "(0::real) \<le> 1 / 1000" by simp
  have dx: "jgt (jsub (Fin 340) (Fin 100)) (Fin (1 / 1000))"
    and dy: "jgt (jsub (Fin 320) (Fin 200)) (Fin (1 / 1000))"
    by (simp_all add: js_eval)
  have p: "(case None of None \<Rightarrow> fl (9 / 10) | Some q \<Rightarrow> q) = fl (9 / 10)" by simp
  have "transformFor box_path (named_box ''A'' 100 200 340 320) None =
      (let s = jmul (jmin (jdiv (Fin width) (jsub (Fin 340) (Fin 100)))
                 (jdiv (Fin height) (jsub (Fin 320) (Fin 200)))) (fl (9 / 10))
       in Transform s
          (jsub (jdiv (Fin width) (Fin 2)) (jmul (jdiv (jadd (Fin 100) (Fin 340)) (Fin 2)) s))
          (jsub (jdiv (Fin height) (Fin 2)) (jmul (jdiv (jadd (Fin 200) (Fin 320)) (Fin 2)) s)))"
    by (rule transformFor_fits_box [OF b e dx dy p])
  also have "\<dots> =
      Transform (Fin (8106479329266893 / 2251799813685248)) (Fin (- 312)) (Fin (- 636))"
    apply (simp only: Let_def width_def height_def)
    apply (simp add: js_eval)
    done
  finally show ?thesis .
qed

subsection \<open>Boxes of zero width or height\<close>

lemma jsub_self: "isFinite x \<Longrightarrow> jsub x x = Fin 0"
  by (cases x) (auto simp: jsub_def jadd_def)

lemma jdiv_pos_zero: "0 < w \<Longrightarrow> jdiv (Fin w) (Fin 0) = PosInf"
  by (simp add: jdiv_def signed_inf_def)

lemma jmin_PosInf_left: "jmin PosInf q = q"
  by (cases q) (simp_all add: jmin_def)

lemma jmin_PosInf_right: "jmin q PosInf = q"
  by (cases q) (simp_all add: jmin_def)

lemma jmul_PosInf_pos: "jgt p (Fin 0) \<Longrightarrow> jmul PosInf p = PosInf"
  by (cases p) (auto simp: jmul_def jgt_def signed_inf_def)

lemma jsub_times_PosInf: "\<not> isFinite (jsub (Fin a) (jmul c PosInf))"
  by (cases c) (auto simp: jmul_def jsub_def jadd_def signed_inf_def)

lemma point_box_ratio:
  assumes "isFinite x0" and "isFinite y0"
  shows "jmin (jdiv (Fin width) (jsub x0 x0)) (jdiv (Fin height) (jsub y0 y0)) = PosInf"
  using assms by (simp add: jsub_self jdiv_pos_zero width_def height_def jmin_PosInf_left)

text \<open>
  Claim C2, as stated, fails. A dimension of the box that is zero is not replaced by 1:
  for the box of the single point \<open>(10, 20)\<close> both quotients are \<^verbatim>\<open>Infinity\<close>, and so is
  the scale (with a replaced dimension it would be 540).
\<close>

theorem degenerate_box_infinite_scale:
  "transformFor box_path (named_box ''A'' 10 20 10 20) None = Transform PosInf NegInf NegInf
   \<and> \<not> isFinite (tk (transformFor box_path (named_box ''A'' 10 20 10 20) None))"
proof -
  have "transformFor box_path (named_box ''A'' 10 20 10 20) None =
      Transform PosInf NegInf NegInf"
    apply (simp only: transformFor_def box_path_def named_box_def width_def height_def
        zoomIdentity_def Let_def prod.case option.case geoPath.simps feature.simps)
    apply (simp add: js_eval)
    done
  then show ?thesis by simp
qed

text \<open>
  Claim C2, amended. \<open>transformFor\<close> divides by the width and the height as they are,
  zero included. When the width is zero its quotient is \<^verbatim>\<open>Infinity\<close>, which
  \<^verbatim>\<open>Math.min\<close> drops, so the scale is \<open>(height / dy) * p\<close>, the one of the height
  alone; likewise for a zero height; and when both are zero (a single finite point) the
  scale is \<^verbatim>\<open>Infinity\<close> for every positive padding and neither translation is finite.
\<close>

theorem transformFor_has_no_degenerate_guard:
  assumes "path_bounds path f = ((x0, y0), (x1, y1))"
    and "(case pad of None \<Rightarrow> fl (9 / 10) | Some q \<Rightarrow> q) = p"
  shows "(isFinite x0 \<and> x1 = x0 \<longrightarrow>
            tk (transformFor path f pad) = jmul (jdiv (Fin height) (jsub y1 y0)) p)
       \<and> (isFinite y0 \<and> y1 = y0 \<longrightarrow>
            tk (transformFor path f pad) = jmul (jdiv (Fin width) (jsub x1 x0)) p)
       \<and> (isFinite x0 \<and> x1 = x0 \<and> isFinite y0 \<and> y1 = y0 \<and> jgt p (Fin 0) \<longrightarrow>
            tk (transformFor path f pad) = PosInf
            \<and> \<not> isFinite (tx (transformFor path f pad))
            \<and> \<not> isFinite (ty (transformFor path f pad)))"
proof (intro conjI impI)
  note t = transformFor_components [OF assms]
  {
    assume "isFinite x0 \<and> x1 = x0"
    then show "tk (transformFor path f pad) = jmul (jdiv (Fin height) (jsub y1 y0)) p"
      by (simp add: t jsub_self jdiv_pos_zero width_def jmin_PosInf_left)
  next
    assume "isFinite y0 \<and> y1 = y0"
    then show "tk (transformFor path f pad) = jmul (jdiv (Fin width) (jsub x1 x0)) p"
      by (simp add: t jsub_self jdiv_pos_zero height_def jmin_PosInf_right)
  next
    assume a: "isFinite x0 \<and> x1 = x0 \<and> isFinite y0 \<and> y1 = y0 \<and> jgt p (Fin 0)"
    then have r: "jmin (jdiv (Fin width) (jsub x1 x0)) (jdiv (Fin height) (jsub y1 y0)) = PosInf"
      by (simp add: point_box_ratio)
    from a have k: "jmul PosInf p = PosInf" by (simp add: jmul_PosInf_pos)
    show "tk (transformFor path f pad) = PosInf" by (simp add: t r k)
    show "\<not> isFinite (tx (transformFor path f pad))"
      by (simp add: t r k half_viewport jsub_times_PosInf)
    show "\<not> isFinite (ty (transformFor path f pad))"
      by (simp add: t r k half_viewport jsub_times_PosInf)
  }
qed

theorem transformFor_has_no_degenerate_guard_witness:
  "tk (transformFor box_path (named_box ''A'' 10 20 10 (41 / 2)) (Some (Fin (1 / 2)))) = Fin 600
   \<and> tk (transformFor box_path (named_box ''A'' 0 0 0 0) None) = PosInf
   \<and> \<not> isFinite (tx (transformFor box_path (named_box ''A'' 0 0 0 0) None))"
proof -
  have b1: "path_bounds box_path (named_box ''A'' 10 20 10 (41 / 2)) =
      ((Fin 10, Fin 20), (Fin 10, Fin (41 / 2)))"
    by (simp add: box_path_def named_box_def)
  have p1: "(case Some (Fin (1 / 2)) of None \<Rightarrow> fl (9 / 10) | Some q \<Rightarrow> q) = Fin (1 / 2)"
    by simp
  have h1: "isFinite (Fin 10) \<and> Fin 10 = Fin 10" by simp
  from transformFor_has_no_degenerate_guard [OF b1 p1] h1
  have "tk (transformFor box_path (named_box ''A'' 10 20 10 (41 / 2)) (Some (Fin (1 / 2)))) =
      jmul (jdiv (Fin height) (jsub (Fin (41 / 2)) (Fin 20))) (Fin (1 / 2))"
    by blast
  also have "\<dots> = Fin 600"
    apply (simp only: height_def)
    apply (simp add: js_eval)
    done
  finally have w1:
    "tk (transformFor box_path (named_box ''A'' 10 20 10 (41 / 2)) (Some (Fin (1 / 2)))) = Fin 600" .
  have b0: "path_bounds box_path (named_box ''A'' 0 0 0 0) = ((Fin 0, Fin 0), (Fin 0, Fin 0))"
    by (simp add: box_path_def named_box_def)
  have p0: "(case None of None \<Rightarrow> fl (9 / 10) | Some q \<Rightarrow> q) = fl (9 / 10)" by simp
  have g: "jgt (fl (9 / 10)) (Fin 0)" by (simp add: js_eval)
  have h: "isFinite (Fin 0) \<and> Fin 0 = Fin 0 \<and> isFinite (Fin 0) \<and> Fin 0 = Fin 0
      \<and> jgt (fl (9 / 10)) (Fin 0)"
    using g by simp
  from transformFor_has_no_degenerate_guard [OF b0 p0] h
  have w2: "tk (transformFor box_path (named_box ''A'' 0 0 0 0) None) = PosInf
      \<and> \<not> isFinite (tx (transformFor box_path (named_box ''A'' 0 0 0 0) None))"
    by blast
  from w1 w2 show ?thesis by simp
qed

subsection \<open>Padding and scale\<close>

lemma jmul_half_lt_ninetenths:
  assumes "0 < a" and "fl a = Fin a"
  shows "jlt (jmul (Fin a) (Fin (1 / 2))) (jmul (Fin a) (fl (9 / 10)))"
proof -
  from fl_half_lt_ninetenths [OF assms] obtain r1 r2 where
    "fl (a * (1 / 2)) = Fin r1" "fl (a * (8106479329266893 / 9007199254740992)) = Fin r2"
    "r1 < r2" by blast
  moreover have "jmul (Fin a) (Fin (1 / 2)) = fl (a * (1 / 2))"
    using assms(1) by (simp add: jmul_def)
  moreover have "jmul (Fin a) (fl (9 / 10)) = fl (a * (8106479329266893 / 9007199254740992))"
    using assms(1) by (simp add: jmul_def ninetenths)
  ultimately show ?thesis by simp
qed

text \<open>
  Claim C9, as stated, fails for the box of a single point: the scale is \<^verbatim>\<open>Infinity\<close>
  with padding 0.5 as with padding 0.9.
\<close>

theorem point_box_scale_not_decreasing:
  "\<not> jlt (tk (transformFor box_path (named_box ''A'' 10 20 10 20) (Some (Fin (1 / 2)))))
         (tk (transformFor box_path (named_box ''A'' 10 20 10 20) (Some (fl (9 / 10)))))"
proof -
  have "transformFor box_path (named_box ''A'' 10 20 10 20) (Some (Fin (1 / 2))) =
      Transform PosInf NegInf NegInf"
    apply (simp only: transformFor_def box_path_def named_box_def width_def height_def
        zoomIdentity_def Let_def prod.case option.case geoPath.simps feature.simps)
    apply (simp add: js_eval)
    done
  moreover have "transformFor box_path (named_box ''A'' 10 20 10 20) (Some (fl (9 / 10))) =
      Transform PosInf NegInf NegInf"
    apply (simp only: transformFor_def box_path_def named_box_def width_def height_def
        zoomIdentity_def Let_def prod.case option.case geoPath.simps feature.simps)
    apply (simp add: js_eval)
    done
  ultimately show ?thesis by simp
qed

text \<open>
  Claim C9, amended. Let \<open>m\<close> be the ratio \<open>min (width / dx) (height / dy)\<close> as the
  page computes it. Whenever \<open>m\<close> is a positive finite number, the scale computed with
  padding 0.5 is strictly less than the scale computed with padding 0.9 (given, or as the
  default). When \<open>m\<close> is \<^verbatim>\<open>Infinity\<close> or zero, the scale is \<open>m\<close> with either
  padding; and \<open>m\<close> is \<^verbatim>\<open>Infinity\<close> for every box that is a single finite point.
\<close>

theorem smaller_padding_smaller_scale:
  assumes "path_bounds path f = ((x0, y0), (x1, y1))"
    and "jmin (jdiv (Fin width) (jsub x1 x0)) (jdiv (Fin height) (jsub y1 y0)) = m"
  shows "(\<forall>a. m = Fin a \<and> 0 < a \<longrightarrow>
            jlt (tk (transformFor path f (Some (Fin (1 / 2)))))
                (tk (transformFor path f (Some (fl (9 / 10)))))
            \<and> jlt (tk (transformFor path f (Some (Fin (1 / 2))))) (tk (transformFor path f None)))
       \<and> (m = PosInf \<or> m = Fin 0 \<longrightarrow>
            tk (transformFor path f (Some (Fin (1 / 2)))) = m
            \<and> tk (transformFor path f (Some (fl (9 / 10)))) = m
            \<and> tk (transformFor path f None) = m)
       \<and> (isFinite x0 \<and> x1 = x0 \<and> isFinite y0 \<and> y1 = y0 \<longrightarrow> m = PosInf)"
proof -
  have k5: "tk (transformFor path f (Some (Fin (1 / 2)))) = jmul m (Fin (1 / 2))"
    using transformFor_components [OF assms(1), of "Some (Fin (1 / 2))" "Fin (1 / 2)"]
    by (simp add: assms(2))
  have k9: "tk (transformFor path f (Some (fl (9 / 10)))) = jmul m (fl (9 / 10))"
    using transformFor_components [OF assms(1), of "Some (fl (9 / 10))" "fl (9 / 10)"]
    by (simp add: assms(2))
  have kd: "tk (transformFor path f None) = jmul m (fl (9 / 10))"
    using transformFor_components [OF assms(1), of None "fl (9 / 10)"]
    by (simp add: assms(2))
  have d: "is_double m" unfolding assms(2) [symmetric] by (simp add: is_double_jmin)
  show ?thesis
  proof (intro conjI allI impI)
    fix a assume a: "m = Fin a \<and> 0 < a"
    with d have "fl a = Fin a" by simp
    with a have "jlt (jmul (Fin a) (Fin (1 / 2))) (jmul (Fin a) (fl (9 / 10)))"
      by (intro jmul_half_lt_ninetenths) simp_all
    with a show "jlt (tk (transformFor path f (Some (Fin (1 / 2)))))
                (tk (transformFor path f (Some (fl (9 / 10)))))"
      and "jlt (tk (transformFor path f (Some (Fin (1 / 2))))) (tk (transformFor path f None))"
      by (simp_all add: k5 k9 kd)
  next
    have z: "jmul PosInf (fl (9 / 10)) = PosInf" "jmul (Fin 0) (fl (9 / 10)) = Fin 0"
      "jmul PosInf (Fin (1 / 2)) = PosInf" "jmul (Fin 0) (Fin (1 / 2)) = Fin 0"
      by (simp_all add: ninetenths jmul_def signed_inf_def signed_zero_def)
    assume "m = PosInf \<or> m = Fin 0"
    then show "tk (transformFor path f (Some (Fin (1 / 2)))) = m"
      and "tk (transformFor path f (Some (fl (9 / 10)))) = m"
      and "tk (transformFor path f None) = m"
      by (auto simp: k5 k9 kd z)
  next
    assume "isFinite x0 \<and> x1 = x0 \<and> isFinite y0 \<and> y1 = y0"
    with assms(2) show "m = PosInf" by (simp add: point_box_ratio)
  qed
qed

theorem smaller_padding_smaller_scale_witness:
  "jlt (tk (transformFor box_path (named_box ''A'' 100 200 340 320) (Some (Fin (1 / 2)))))
       (tk (transformFor box_path (named_box ''A'' 100 200 340 320) (Some (fl (9 / 10)))))
   \<and> tk (transformFor box_path (named_box ''A'' 10 20 10 20) (Some (Fin (1 / 2)))) = PosInf
   \<and> tk (transformFor box_path (named_box ''A'' 10 20 10 20) (Some (fl (9 / 10)))) = PosInf"
proof -
  have b1: "path_bounds box_path (named_box ''A'' 100 200 340 320) =
      ((Fin 100, Fin 200), (Fin 340, Fin 320))"
    by (simp add: box_path_def named_box_def)
  have m1: "jmin (jdiv (Fin width) (jsub (Fin 340) (Fin 100)))
      (jdiv (Fin height) (jsub (Fin 320) (Fin 200))) = Fin 4"
    apply (simp only: width_def height_def)
    apply (simp add: js_eval)
    done
  have h1: "Fin 4 = Fin 4 \<and> (0::real) < 4" by simp
  from smaller_padding_smaller_scale [OF b1 m1] h1
  have w1: "jlt (tk (transformFor box_path (named_box ''A'' 100 200 340 320) (Some (Fin (1 / 2)))))
       (tk (transformFor box_path (named_box ''A'' 100 200 340 320) (Some (fl (9 / 10)))))"
    by blast
  have b2: "path_bounds box_path (named_box ''A'' 10 20 10 20) =
      ((Fin 10, Fin 20), (Fin 10, Fin 20))"
    by (simp add: box_path_def named_box_def)
  have m2: "jmin (jdiv (Fin width) (jsub (Fin 10) (Fin 10)))
      (jdiv (Fin height) (jsub (Fin 20) (Fin 20))) = PosInf"
    by (simp add: point_box_ratio)
  from smaller_padding_smaller_scale [OF b2 m2]
  have w2: "tk (transformFor box_path (named_box ''A'' 10 20 10 20) (Some (Fin (1 / 2)))) = PosInf
      \<and> tk (transformFor box_path (named_box ''A'' 10 20 10 20) (Some (fl (9 / 10)))) = PosInf"
    by blast
  from w1 w2 show ?thesis by blast
qed

subsection \<open>The empty collection\<close>

text \<open>
  Claim C3, as stated, fails. For the empty collection nothing raises: the bounds stream
  receives no point, the fit divides by \<^verbatim>\<open>-Infinity\<close> and multiplies by
  \<^verbatim>\<open>-Infinity + Infinity\<close>, and the projection comes back with the translation
  \<open>[NaN, NaN]\<close>; the effect then completes on an empty scene.
\<close>

theorem empty_collection_fits_to_NaN:
  "proj_translate (fst (Home_effect box_d3 [])) = (NaN, NaN)
   \<and> snd (Home_effect box_d3 []) =
       \<lparr>fills = [], scene_transform = None, links = [], circles = [], timeline = []\<rparr>"
proof -
  have "fitSize (Fin width, Fin height) [] =
      \<lparr>proj_scale = NegZero, proj_translate = (NaN, NaN)\<rparr>"
    apply (simp only: fitSize_def fitExtent_def boundsStream_def width_def height_def Let_def
        prod.case foldl.simps)
    apply (simp add: js_eval)
    done
  then show ?thesis
    by (simp add: Home_effect_def projection_def demo_tour_def byName_def initial_scene_def)
qed

text \<open>
  Claim C3, amended. For the empty collection the effect raises no error, whatever d3
  does with a geometry: fitting returns a projection with scale \<^verbatim>\<open>-0\<close> and translation
  \<open>[NaN, NaN]\<close>, no path is drawn, and the demo tour leaves the scene as it is.
\<close>

theorem empty_collection_no_error:
  "Home_effect lib [] =
     (\<lparr>proj_scale = NegZero, proj_translate = (NaN, NaN)\<rparr>,
      \<lparr>fills = [], scene_transform = None, links = [], circles = [], timeline = []\<rparr>)"
proof -
  have "fitSize (Fin width, Fin height) [] =
      \<lparr>proj_scale = NegZero, proj_translate = (NaN, NaN)\<rparr>"
    apply (simp only: fitSize_def fitExtent_def boundsStream_def width_def height_def Let_def
        prod.case foldl.simps)
    apply (simp add: js_eval)
    done
  then show ?thesis
    by (simp add: Home_effect_def projection_def demo_tour_def byName_def initial_scene_def)
qed

subsection \<open>The name index\<close>

lemma byName_loop_append:
  "byName_loop m (xs @ ys) = byName_loop (byName_loop m xs) ys"
  by (induction xs arbitrary: m) simp_all

lemma byName_loop_other:
  "\<forall>f \<in> set fs. name f \<noteq> JString n \<Longrightarrow> byName_loop m fs n = m n"
  by (induction fs arbitrary: m) (auto split: js_value.splits)

lemma byName_loop_entry:
  "byName_loop m fs n = Some f \<Longrightarrow> m n = Some f \<or> (f \<in> set fs \<and> name f = JString n)"
proof (induction fs arbitrary: m)
  case Nil
  then show ?case by simp
next
  case (Cons g gs)
  from Cons.IH [OF Cons.prems [simplified]] show ?case
    by (auto split: js_value.splits if_splits)
qed

lemma byName_loop_keeps:
  "m n \<noteq> None \<Longrightarrow> byName_loop m fs n \<noteq> None"
  by (induction fs arbitrary: m) (auto split: js_value.splits)

lemma byName_loop_present:
  "g \<in> set fs \<Longrightarrow> name g = JString n \<Longrightarrow> byName_loop m fs n \<noteq> None"
proof (induction fs arbitrary: m)
  case Nil
  then show ?case by simp
next
  case (Cons h hs)
  show ?case
  proof (cases "g \<in> set hs")
    case True
    from Cons.IH [OF True Cons.prems(2)] show ?thesis by simp
  next
    case False
    with Cons.prems have "h = g" by simp
    with Cons.prems(2) show ?thesis by (simp add: byName_loop_keeps)
  qed
qed

text \<open>
  Claim C4, as stated, fails: a region whose name is the empty string is indexed, under
  the empty string.
\<close>

theorem empty_name_is_indexed:
  "byName [named_box [] 0 0 1 1] [] = Some (named_box [] 0 0 1 1)"
  by (simp add: byName_def named_box_def)

text \<open>
  Claim C4, amended. The index holds a region under a key only if the region is in the
  collection and its name attribute is that very string, so a region whose name is missing
  or not a string is never a value of the index; and every string that is the name of some
  region, the empty string included, is a key of the index.
\<close>

theorem byName_holds_string_names:
  "(byName features n = Some f \<longrightarrow> f \<in> set features \<and> name f = JString n)
   \<and> ((\<exists>g \<in> set features. name g = JString n) \<longrightarrow> byName features n \<noteq> None)"
proof (rule conjI)
  show "byName features n = Some f \<longrightarrow> f \<in> set features \<and> name f = JString n"
    using byName_loop_entry [of Map.empty features n f] by (simp add: byName_def)
  show "(\<exists>g \<in> set features. name g = JString n) \<longrightarrow> byName features n \<noteq> None"
    using byName_loop_present [of _ features n Map.empty] by (auto simp: byName_def)
qed

theorem byName_holds_string_names_witness:
  "byName [named_box [] 0 0 1 1, \<lparr>name = JNumber (Fin 7), geometry = ((Fin 0, Fin 0), (Fin 1, Fin 1))\<rparr>] []
     = Some (named_box [] 0 0 1 1)
   \<and> name (named_box [] 0 0 1 1) = JString []"
  using byName_holds_string_names [of "[named_box [] 0 0 1 1,
      \<lparr>name = JNumber (Fin 7), geometry = ((Fin 0, Fin 0), (Fin 1, Fin 1))\<rparr>]" "[]" "named_box [] 0 0 1 1"]
  by (simp add: byName_def named_box_def)

text \<open>
  Claim C5. When two regions, at positions \<open>i < j\<close> of the collection, have the same
  name and no region after position \<open>j\<close> has it, looking the name up yields the region
  at position \<open>j\<close>, the later one.
\<close>

theorem byName_last_wins:
  assumes "i < j" and "j < length features"
    and "name (features ! i) = JString n" and "name (features ! j) = JString n"
    and "\<forall>f \<in> set (drop (Suc j) features). name f \<noteq> JString n"
  shows "byName features n = Some (features ! j)"
proof -
  have split: "features = take j features @ (features ! j) # drop (Suc j) features"
    using assms(2) by (rule id_take_nth_drop)
  have "byName features n =
      byName_loop (byName_loop Map.empty (take j features)) ((features ! j) # drop (Suc j) features) n"
    unfolding byName_def by (subst split) (simp only: byName_loop_append)
  also have "\<dots> = Some (features ! j)"
    using assms(4) by (simp add: byName_loop_other [OF assms(5)])
  finally show ?thesis .
qed

theorem byName_last_wins_witness:
  "byName [named_box ''A'' 0 0 1 1, named_box ''B'' 2 2 3 3, named_box ''A'' 5 5 6 6] ''A''
     = Some (named_box ''A'' 5 5 6 6)"
  using byName_last_wins [of 0 "Suc (Suc 0)"
      "[named_box ''A'' 0 0 1 1, named_box ''B'' 2 2 3 3, named_box ''A'' 5 5 6 6]" "''A''"]
  by (simp add: named_box_def)

subsection \<open>Highlighting\<close>

text \<open>
  Claim C8, as stated, fails: when two regions share the name, \<open>highlight\<close> puts both
  in the highlighted style; and \<^verbatim>\<open>highlight(null)\<close>, which the parameter type allows,
  leaves no region highlighted.
\<close>

theorem shared_name_highlights_both:
  "fills (highlight [named_box ''A'' 0 0 1 1, named_box ''A'' 5 5 6 6] (Some ''A'')
            (initial_scene [named_box ''A'' 0 0 1 1, named_box ''A'' 5 5 6 6]))
     = [''#93c5fd'', ''#93c5fd'']
   \<and> fills (highlight [named_box ''A'' 0 0 1 1, named_box ''A'' 5 5 6 6] None
            (initial_scene [named_box ''A'' 0 0 1 1, named_box ''A'' 5 5 6 6]))
     = [''#e5e7eb'', ''#e5e7eb'']"
  by (simp add: highlight_def named_box_def)

text \<open>
  Claim C8, amended. After \<open>highlight\<close> every region has a fill, highlighted when its
  name attribute strictly equals the active name and default otherwise; so the number of
  highlighted regions is the number of regions bearing the active name, which is one
  exactly when one region bears it.
\<close>

theorem highlight_follows_names:
  "length (fills (highlight features a s)) = length features
   \<and> (\<forall>i < length features.
         fills (highlight features a s) ! i =
           (if name_is (name (features ! i)) a then ''#93c5fd'' else ''#e5e7eb''))
   \<and> length (filter (\<lambda>c. c = ''#93c5fd'') (fills (highlight features a s))) =
       length (filter (\<lambda>d. name_is (name d) a) features)"
proof -
  have "filter (\<lambda>c. c = ''#93c5fd'')
          (map (\<lambda>d. if name_is (name d) a then ''#93c5fd'' else ''#e5e7eb'') features) =
        map (\<lambda>d. if name_is (name d) a then ''#93c5fd'' else ''#e5e7eb'')
          (filter (\<lambda>d. name_is (name d) a) features)"
    by (induction features) simp_all
  then show ?thesis by (simp add: highlight_def)
qed

theorem highlight_follows_names_witness:
  "fills (highlight [named_box ''A'' 0 0 1 1, named_box ''B'' 5 5 6 6] (Some ''B'')
            (initial_scene [named_box ''A'' 0 0 1 1, named_box ''B'' 5 5 6 6]))
     = [''#e5e7eb'', ''#93c5fd'']
   \<and> length (filter (\<lambda>c. c = ''#93c5fd'')
        (fills (highlight [named_box ''A'' 0 0 1 1, named_box ''B'' 5 5 6 6] (Some ''B'')
            (initial_scene [named_box ''A'' 0 0 1 1, named_box ''B'' 5 5 6 6])))) = 1"
  using highlight_follows_names [of "[named_box ''A'' 0 0 1 1, named_box ''B'' 5 5 6 6]"
      "Some ''B''" "initial_scene [named_box ''A'' 0 0 1 1, named_box ''B'' 5 5 6 6]"]
  by (simp add: highlight_def named_box_def)

subsection \<open>Focus and the tour\<close>

text \<open>
  Claim C10. Focusing a name that is absent from the index returns the scene as it was:
  fills, camera transform, links and timeline are all unchanged.
\<close>

theorem focus_unknown_name_noop:
  "byName features nm = None \<Longrightarrow> focus path features nm duration_arg s = s"
  by (simp add: focus_def)

theorem focus_unknown_name_noop_witness:
  "focus box_path [named_box ''A'' 0 0 1 1] ''B'' None
     \<lparr>fills = [''#93c5fd''], scene_transform = Some (Transform (Fin 2) (Fin 3) (Fin 4)),
      links = [], circles = [], timeline = [SetAttr (Transform (Fin 2) (Fin 3) (Fin 4))]\<rparr>
   = \<lparr>fills = [''#93c5fd''], scene_transform = Some (Transform (Fin 2) (Fin 3) (Fin 4)),
      links = [], circles = [], timeline = [SetAttr (Transform (Fin 2) (Fin 3) (Fin 4))]\<rparr>"
  using focus_unknown_name_noop [of "[named_box ''A'' 0 0 1 1]" "''B''" box_path None
      "\<lparr>fills = [''#93c5fd''], scene_transform = Some (Transform (Fin 2) (Fin 3) (Fin 4)),
      links = [], circles = [], timeline = [SetAttr (Transform (Fin 2) (Fin 3) (Fin 4))]\<rparr>"]
  by (simp add: byName_def named_box_def)

text \<open>
  Claim C7. When the demo tour runs (both of its names resolve), its first camera write is
  an immediate attribute set to the transform of the first target, with no transition and
  no duration; after a delay of 600 ms the second target is reached by a transition of
  1600 ms, which leaves the camera on the second target's transform.
\<close>

theorem demo_tour_first_step_immediate:
  assumes "byName features jiangxi_name = Some jiangxi"
    and "byName features shanghai_name = Some shanghai"
  shows "timeline (demo_tour path features s) =
           timeline s @ [SetAttr (transformFor path jiangxi None), Delay (Fin 600),
                         Transition (Fin 1600) (transformFor path shanghai None)]
       \<and> scene_transform (demo_tour path features s) = Some (transformFor path shanghai None)"
  using assms by (simp add: demo_tour_def focus_def highlight_def drawLink_def Let_def)

theorem demo_tour_first_step_immediate_witness:
  "timeline (demo_tour box_path
      [named_box jiangxi_name 100 200 340 320, named_box shanghai_name 700 300 720 330]
      (initial_scene
        [named_box jiangxi_name 100 200 340 320, named_box shanghai_name 700 300 720 330])) =
     [SetAttr (Transform (Fin (8106479329266893 / 2251799813685248)) (Fin (- 312)) (Fin (- 636))),
      Delay (Fin 600),
      Transition (Fin 1600) (Transform (Fin 18) (Fin (- 12300)) (Fin (- 5370)))]"
proof -
  have j: "byName
      [named_box jiangxi_name 100 200 340 320, named_box shanghai_name 700 300 720 330]
      jiangxi_name = Some (named_box jiangxi_name 100 200 340 320)"
    and s: "byName
      [named_box jiangxi_name 100 200 340 320, named_box shanghai_name 700 300 720 330]
      shanghai_name = Some (named_box shanghai_name 700 300 720 330)"
    by (simp_all add: byName_def named_box_def jiangxi_name_def shanghai_name_def)
  from demo_tour_first_step_immediate [OF j s, of box_path
      "initial_scene
        [named_box jiangxi_name 100 200 340 320, named_box shanghai_name 700 300 720 330]"]
  show ?thesis
    by (simp add: transformFor_sample_1 transformFor_sample_2 initial_scene_def)
qed

text \<open>
  Claim C6, as stated, fails for the tour: with only the second target in the collection,
  that target resolves, yet the tour returns before its first step and never focuses it.
\<close>

theorem demo_tour_aborts_on_missing_name:
  "byName [named_box shanghai_name 700 300 720 330] shanghai_name =
     Some (named_box shanghai_name 700 300 720 330)
   \<and> demo_tour box_path [named_box shanghai_name 700 300 720 330]
       (initial_scene [named_box shanghai_name 700 300 720 330]) =
     \<lparr>fills = [''#e5e7eb''], scene_transform = None, links = [], circles = [], timeline = []\<rparr>"
  by (simp add: demo_tour_def byName_def named_box_def jiangxi_name_def shanghai_name_def
      initial_scene_def)

text \<open>
  Claim C6, amended. A \<open>focus\<close> call on a name absent from the index raises nothing and
  changes nothing, so the \<open>focus\<close> call after it runs as if it had come first; the demo
  tour looks both of its names up before its first step and, when one of them is absent,
  returns with the scene unchanged.
\<close>

theorem unknown_name_skipped_by_focus:
  assumes "byName features a = None"
  shows "focus path features b d2 (focus path features a d1 s) = focus path features b d2 s
       \<and> (a = jiangxi_name \<or> a = shanghai_name \<longrightarrow> demo_tour path features s = s)"
  using assms by (auto simp: focus_def demo_tour_def split: option.splits)

theorem unknown_name_skipped_by_focus_witness:
  "focus box_path [named_box shanghai_name 700 300 720 330] shanghai_name (Some (Fin 1600))
     (focus box_path [named_box shanghai_name 700 300 720 330] jiangxi_name None
        (initial_scene [named_box shanghai_name 700 300 720 330])) =
   \<lparr>fills = [''#93c5fd''],
    scene_transform = Some (Transform (Fin 18) (Fin (- 12300)) (Fin (- 5370))),
    links = [], circles = [],
    timeline = [Transition (Fin 1600) (Transform (Fin 18) (Fin (- 12300)) (Fin (- 5370)))]\<rparr>
   \<and> timeline (demo_tour box_path [named_box shanghai_name 700 300 720 330]
        (initial_scene [named_box shanghai_name 700 300 720 330])) = []"
proof -
  have n: "byName [named_box shanghai_name 700 300 720 330] jiangxi_name = None"
    and s: "byName [named_box shanghai_name 700 300 720 330] shanghai_name =
      Some (named_box shanghai_name 700 300 720 330)"
    by (simp_all add: byName_def named_box_def jiangxi_name_def shanghai_name_def)
  have "focus box_path [named_box shanghai_name 700 300 720 330] shanghai_name (Some (Fin 1600))
      (initial_scene [named_box shanghai_name 700 300 720 330]) =
    \<lparr>fills = [''#93c5fd''],
     scene_transform = Some (Transform (Fin 18) (Fin (- 12300)) (Fin (- 5370))),
     links = [], circles = [],
     timeline = [Transition (Fin 1600) (Transform (Fin 18) (Fin (- 12300)) (Fin (- 5370)))]\<rparr>"
    by (simp add: focus_def s highlight_def transformFor_sample_2 initial_scene_def Let_def
        name_named_box)
  with unknown_name_skipped_by_focus [OF n, of box_path shanghai_name "Some (Fin 1600)" None
      "initial_scene [named_box shanghai_name 700 300 720 330]"]
  show ?thesis by (simp add: initial_scene_def)
qed

end
